theory Spec2Isabelle
  imports Complex_Main "HOL-Library.Word"
begin

section \<open>Data model\<close>

text \<open>
  The annotation engine of the PDF reader: \<^verbatim>\<open>src/core/pdf_document.py\<close> (the annotation
  store), \<^verbatim>\<open>src/core/command.py\<close> (the highlight command and the command history) and the
  line grouping of \<^verbatim>\<open>MainWindow.highlight_selected_text\<close> in \<^verbatim>\<open>src/ui/main_window.py\<close>.

  Python floats are idealised as \<^typ>\<open>real\<close> (no rounding, no NaN, no infinities), Python
  integers are \<^typ>\<open>int\<close>.
\<close>

subsection \<open>Rectangle objects\<close>

text \<open>
  A \<^verbatim>\<open>fitz.Rect\<close> is a mutable object with four float coordinates. The store's
  \<^verbatim>\<open>add_highlight\<close> updates the rectangle it is given in place and keeps a reference to
  that same object in the annotation, so rectangles live in an object heap and are named
  by their address. \<open>next_ref\<close> is the first address that has not been handed out.
\<close>

type_synonym ref = nat

record Rect =
  x0 :: real
  y0 :: real
  x1 :: real
  y1 :: real

record rect_heap =
  cells :: "ref \<Rightarrow> Rect"
  next_ref :: ref

definition new_Rect :: "Rect \<Rightarrow> rect_heap \<Rightarrow> ref \<times> rect_heap" where
  \<comment> \<open>\<^verbatim>\<open>fitz.Rect(x0, y0, x1, y1)\<close>: a fresh object holding the four coordinates\<close>
  "new_Rect v hp =
     (next_ref hp, hp\<lparr>cells := (cells hp)(next_ref hp := v), next_ref := Suc (next_ref hp)\<rparr>)"

subsection \<open>Colours\<close>

text \<open>
  \<^verbatim>\<open>QColor\<close> of Qt: four 8-bit channels, or the invalid colour. The constructor
  \<^verbatim>\<open>QColor(r, g, b, a)\<close> leaves the colour invalid when a channel is outside 0..255; the
  invalid colour reads as red = green = blue = 0 and alpha = 255.
\<close>

datatype QColor = RGBA "8 word" "8 word" "8 word" "8 word" | InvalidColor

fun red :: "QColor \<Rightarrow> int" where
  "red (RGBA r g b a) = uint r"
| "red InvalidColor = 0"

fun green :: "QColor \<Rightarrow> int" where
  "green (RGBA r g b a) = uint g"
| "green InvalidColor = 0"

fun blue :: "QColor \<Rightarrow> int" where
  "blue (RGBA r g b a) = uint b"
| "blue InvalidColor = 0"

fun alpha :: "QColor \<Rightarrow> int" where
  "alpha (RGBA r g b a) = uint a"
| "alpha InvalidColor = 255"

definition channel_ok :: "int \<Rightarrow> bool" where
  "channel_ok v \<longleftrightarrow> 0 \<le> v \<and> v \<le> 255"

definition QColor_init :: "int \<Rightarrow> int \<Rightarrow> int \<Rightarrow> int \<Rightarrow> QColor" where
  "QColor_init r g b a =
     (if channel_ok r \<and> channel_ok g \<and> channel_ok b \<and> channel_ok a
      then RGBA (word_of_int r) (word_of_int g) (word_of_int b) (word_of_int a)
      else InvalidColor)"

subsection \<open>Annotation store (\<^verbatim>\<open>PDFDocument\<close>)\<close>

text \<open>
  An annotation is the dictionary \<^verbatim>\<open>{'type', 'rect', 'page', 'color'}\<close> built by
  \<^verbatim>\<open>add_highlight\<close>; its \<^verbatim>\<open>'rect'\<close> entry is a reference to a rectangle object. The
  dictionaries themselves are never modified after creation, so they are values.
\<close>

record annotation =
  ann_type :: string
  ann_rect :: ref
  ann_page :: int
  ann_color :: QColor

text \<open>
  \<open>doc\<close> is the PyMuPDF document (\<open>None\<close> while no file is open); its type \<open>'d\<close> is left
  open. \<^verbatim>\<open>page_text_data\<close> is not used by any operation below and is left out.
\<close>

record 'd PDFDocument =
  doc :: "'d option"
  annotations :: "annotation list"

datatype error = TypeError | ZeroDivisionError

text \<open>Python's \<^verbatim>\<open>list.insert(i, x)\<close>: a negative index counts from the end, and the
  position is clamped to the list.\<close>

definition py_insert :: "int \<Rightarrow> 'a \<Rightarrow> 'a list \<Rightarrow> 'a list" where
  "py_insert i x xs =
     (let n = int (length xs);
          j = (if i < 0 then max 0 (i + n) else min i n)
      in take (nat j) xs @ [x] @ drop (nat j) xs)"

text \<open>Python's \<^verbatim>\<open>list.pop(i)\<close> for \<open>0 \<le> i < len\<close> (the only way it is called here).\<close>

definition py_pop :: "int \<Rightarrow> 'a list \<Rightarrow> 'a list" where
  "py_pop i xs = take (nat i) xs @ drop (Suc (nat i)) xs"

text \<open>
  The argument of \<^verbatim>\<open>add_highlight\<close> is either a \<^verbatim>\<open>fitz.Rect\<close> object, passed by reference,
  or any other rectangle-like value, from which \<^verbatim>\<open>fitz.Rect(rect)\<close> builds a new object.
\<close>

datatype rect_arg = RectObject ref | RectLike Rect

definition pad :: "Rect \<Rightarrow> Rect" where
  \<comment> \<open>\<^verbatim>\<open>rect.x0 -= 1; rect.x1 += 1\<close>\<close>
  "pad v = v\<lparr>x0 := x0 v - 1, x1 := x1 v + 1\<rparr>"

text \<open>
  \<^verbatim>\<open>add_highlight\<close> has no \<^verbatim>\<open>return\<close> statement: the first component of the result is
  Python's \<^verbatim>\<open>None\<close>, in the type of what a caller could have expected (the record and its
  index).
\<close>

definition add_highlight ::
  "rect_heap \<Rightarrow> 'd PDFDocument \<Rightarrow> rect_arg \<Rightarrow> int \<Rightarrow> QColor
     \<Rightarrow> (annotation \<times> int) option \<times> rect_heap \<times> 'd PDFDocument" where
  "add_highlight hp p arg page_num color =
     (let (r, hp1) = (case arg of RectObject r \<Rightarrow> (r, hp) | RectLike v \<Rightarrow> new_Rect v hp);
          hp2 = hp1\<lparr>cells := (cells hp1)(r := pad (cells hp1 r))\<rparr>;
          a = \<lparr>ann_type = ''highlight'', ann_rect = r, ann_page = page_num, ann_color = color\<rparr>
      in (None, hp2, p\<lparr>annotations := annotations p @ [a]\<rparr>))"

text \<open>
  \<^verbatim>\<open>remove_annotation\<close>. When a document is set, lines 56 to 60 run PyMuPDF code on it
  (the truth test of the document object, loading the page, deleting its highlight
  annotations). That library code is the parameter \<open>fz\<close>: given the document and the page
  number it returns the document afterwards and whether the calls completed without
  raising. When they raise, the \<^verbatim>\<open>except\<close> branch puts the popped annotation back and the
  method returns \<^verbatim>\<open>False\<close>.
\<close>

definition remove_annotation ::
  "('d \<Rightarrow> int \<Rightarrow> 'd \<times> bool) \<Rightarrow> 'd PDFDocument \<Rightarrow> int \<Rightarrow> bool \<times> 'd PDFDocument" where
  "remove_annotation fz p index =
     (if 0 \<le> index \<and> index < int (length (annotations p)) then
        (let page_num = ann_page (annotations p ! nat index);
             a = annotations p ! nat index;
             p1 = p\<lparr>annotations := py_pop index (annotations p)\<rparr>
         in case doc p1 of
              None \<Rightarrow> (True, p1)
            | Some d \<Rightarrow>
                (case fz d page_num of
                   (d', True) \<Rightarrow> (True, p1\<lparr>doc := Some d'\<rparr>)
                 | (d', False) \<Rightarrow>
                     (False, p1\<lparr>doc := Some d',
                                 annotations := py_insert index a (annotations p1)\<rparr>)))
      else (False, p))"

text \<open>The filter of \<^verbatim>\<open>apply_highlights\<close>: the records of one page, in store order, each with
  the current coordinates of its rectangle.\<close>

definition page_highlights ::
  "rect_heap \<Rightarrow> 'd PDFDocument \<Rightarrow> int \<Rightarrow> (string \<times> Rect \<times> int \<times> QColor) list" where
  "page_highlights hp p page_num =
     map (\<lambda>a. (ann_type a, cells hp (ann_rect a), ann_page a, ann_color a))
       (filter (\<lambda>a. ann_page a = page_num) (annotations p))"

subsection \<open>\<^verbatim>\<open>HighlightCommand\<close>\<close>

text \<open>
  \<open>rects\<close> holds references to rectangle objects; an entry of \<open>annotation_indices\<close> is an
  integer or \<^verbatim>\<open>None\<close> (JSON \<^verbatim>\<open>null\<close>); \<open>removed_annotations\<close> holds the annotation
  dictionaries taken out of the store by \<^verbatim>\<open>undo\<close>. Every command refers to the one store
  that is passed along with it.

  A command is a value here. Two references to one command object, and an index list
  shared between a command and the dictionary it was read from, are not followed: the
  user interface builds a new command for every highlight and reads the dictionaries from
  JSON text.
\<close>

record HighlightCommand =
  rects :: "ref list"
  page_num :: int
  color :: QColor
  annotation_indices :: "int option list"
  removed_annotations :: "annotation list"

definition HighlightCommand_init :: "ref list \<Rightarrow> int \<Rightarrow> QColor \<Rightarrow> HighlightCommand" where
  "HighlightCommand_init rs pg col =
     \<lparr>rects = rs, page_num = pg, color = col,
      annotation_indices = [], removed_annotations = []\<rparr>"

text \<open>The loop of the redo branch of \<^verbatim>\<open>execute\<close>, over the pairs of
  \<^verbatim>\<open>zip(annotation_indices, removed_annotations)\<close>.\<close>

fun restore_loop :: "(int option \<times> annotation) list \<Rightarrow> annotation list \<Rightarrow> annotation list" where
  "restore_loop [] anns = anns"
| "restore_loop ((idx, a) # rest) anns =
     restore_loop rest
       (case idx of
          Some i \<Rightarrow> if i \<le> int (length anns) then py_insert i a anns else anns @ [a]
        | None \<Rightarrow> anns @ [a])"

text \<open>The loop of the first-execution branch: one \<^verbatim>\<open>add_highlight\<close> per rectangle, then
  the index of the record just appended is appended to \<open>annotation_indices\<close>.\<close>

fun add_loop ::
  "ref list \<Rightarrow> int \<Rightarrow> QColor \<Rightarrow> int option list \<Rightarrow> rect_heap \<Rightarrow> 'd PDFDocument
     \<Rightarrow> int option list \<times> rect_heap \<times> 'd PDFDocument" where
  "add_loop [] pg col idxs hp p = (idxs, hp, p)"
| "add_loop (r # rs) pg col idxs hp p =
     (case add_highlight hp p (RectObject r) pg col of
        (_, hp', p') \<Rightarrow>
          add_loop rs pg col (idxs @ [Some (int (length (annotations p')) - 1)]) hp' p')"

definition execute ::
  "HighlightCommand \<Rightarrow> rect_heap \<Rightarrow> 'd PDFDocument
     \<Rightarrow> bool \<times> HighlightCommand \<times> rect_heap \<times> 'd PDFDocument" where
  "execute c hp p =
     (if removed_annotations c \<noteq> [] then
        (True,
         c\<lparr>removed_annotations := []\<rparr>,
         hp,
         p\<lparr>annotations :=
             restore_loop (zip (annotation_indices c) (removed_annotations c)) (annotations p)\<rparr>)
      else
        (case add_loop (rects c) (page_num c) (color c) (annotation_indices c) hp p of
           (idxs, hp', p') \<Rightarrow> (True, c\<lparr>annotation_indices := idxs\<rparr>, hp', p')))"

text \<open>
  The loop of \<^verbatim>\<open>undo\<close> over \<^verbatim>\<open>reversed(annotation_indices)\<close>. The comparison
  \<^verbatim>\<open>0 <= idx\<close> raises \<^verbatim>\<open>TypeError\<close> when \<open>idx\<close> is \<^verbatim>\<open>None\<close>. An index outside the store
  is passed over. \<^verbatim>\<open>removed_annotations.insert(0, x)\<close> puts \<open>x\<close> in front.
\<close>

fun undo_loop ::
  "('d \<Rightarrow> int \<Rightarrow> 'd \<times> bool) \<Rightarrow> int option list \<Rightarrow> annotation list \<Rightarrow> 'd PDFDocument
     \<Rightarrow> (error + bool) \<times> annotation list \<times> 'd PDFDocument" where
  "undo_loop fz [] removed p = (Inr True, removed, p)"
| "undo_loop fz (None # rest) removed p = (Inl TypeError, removed, p)"
| "undo_loop fz (Some idx # rest) removed p =
     (if 0 \<le> idx \<and> idx < int (length (annotations p)) then
        (let removed' = (annotations p ! nat idx) # removed in
         case remove_annotation fz p idx of
           (ok, p') \<Rightarrow>
             if \<not> ok then (Inr False, removed', p')
             else undo_loop fz rest removed' p')
      else undo_loop fz rest removed p)"

definition undo ::
  "('d \<Rightarrow> int \<Rightarrow> 'd \<times> bool) \<Rightarrow> HighlightCommand \<Rightarrow> 'd PDFDocument
     \<Rightarrow> (error + bool) \<times> HighlightCommand \<times> 'd PDFDocument" where
  "undo fz c p =
     (if annotation_indices c = [] then (Inr False, c, p)
      else
        (case undo_loop fz (rev (annotation_indices c)) [] p of
           (res, removed, p') \<Rightarrow> (res, c\<lparr>removed_annotations := removed\<rparr>, p')))"

subsection \<open>Serialised commands\<close>

text \<open>
  The dictionary written by \<^verbatim>\<open>to_dict\<close>. Keys read with \<^verbatim>\<open>data[...]\<close> are plain fields;
  the key read with \<^verbatim>\<open>data.get(..., [])\<close> is optional. A rectangle entry
  \<^verbatim>\<open>{'x0', 'y0', 'x1', 'y1'}\<close> is a \<^typ>\<open>Rect\<close> value, a colour entry
  \<^verbatim>\<open>{'r', 'g', 'b', 'a'}\<close> a quadruple of integers.
\<close>

record color_dict =
  key_r :: int
  key_g :: int
  key_b :: int
  key_a :: int

record command_dict =
  key_type :: string
  key_rects :: "Rect list"
  key_page_num :: int
  key_color :: color_dict
  key_annotation_indices :: "int option list option"

definition to_dict :: "HighlightCommand \<Rightarrow> rect_heap \<Rightarrow> command_dict" where
  "to_dict c hp =
     \<lparr>key_type = ''highlight'',
      key_rects = map (cells hp) (rects c),
      key_page_num = page_num c,
      key_color = \<lparr>key_r = red (color c), key_g = green (color c),
                   key_b = blue (color c), key_a = alpha (color c)\<rparr>,
      key_annotation_indices = Some (annotation_indices c)\<rparr>"

text \<open>The list comprehension of \<^verbatim>\<open>from_dict\<close>: one new rectangle object per entry.\<close>

fun new_Rects :: "Rect list \<Rightarrow> rect_heap \<Rightarrow> ref list \<times> rect_heap" where
  "new_Rects [] hp = ([], hp)"
| "new_Rects (v # vs) hp =
     (case new_Rect v hp of
        (r, hp1) \<Rightarrow> (case new_Rects vs hp1 of (rs, hp2) \<Rightarrow> (r # rs, hp2)))"

definition from_dict :: "command_dict \<Rightarrow> rect_heap \<Rightarrow> HighlightCommand \<times> rect_heap" where
  "from_dict data hp =
     (case new_Rects (key_rects data) hp of
        (rs, hp') \<Rightarrow>
          (let col = QColor_init (key_r (key_color data)) (key_g (key_color data))
                       (key_b (key_color data)) (key_a (key_color data));
               command = HighlightCommand_init rs (key_page_num data) col
           in (command\<lparr>annotation_indices :=
                  (case key_annotation_indices data of None \<Rightarrow> [] | Some l \<Rightarrow> l)\<rparr>,
               hp')))"

subsection \<open>\<^verbatim>\<open>CommandHistory\<close>\<close>

text \<open>
  \<^verbatim>\<open>HighlightCommand\<close> is the only concrete \<^verbatim>\<open>Command\<close>, so both stacks hold highlight
  commands; the top of a stack is the end of the list. A command that is popped, run and
  pushed again is pushed in its new state.
\<close>

record CommandHistory =
  undo_stack :: "HighlightCommand list"
  redo_stack :: "HighlightCommand list"
  max_stack_size :: int

definition CommandHistory_init :: "int \<Rightarrow> CommandHistory" where
  "CommandHistory_init n = \<lparr>undo_stack = [], redo_stack = [], max_stack_size = n\<rparr>"

definition will_lose_redo_history :: "CommandHistory \<Rightarrow> bool" where
  "will_lose_redo_history h \<longleftrightarrow> length (redo_stack h) > 0"

definition push_capped :: "int \<Rightarrow> 'a list \<Rightarrow> 'a \<Rightarrow> 'a list" where
  \<comment> \<open>\<^verbatim>\<open>stack.append(command)\<close>, then \<^verbatim>\<open>stack.pop(0)\<close> when the stack is longer than the cap\<close>
  "push_capped cap stack c =
     (let s = stack @ [c] in if int (length s) > cap then tl s else s)"

definition history_execute ::
  "CommandHistory \<Rightarrow> HighlightCommand \<Rightarrow> rect_heap \<Rightarrow> 'd PDFDocument
     \<Rightarrow> bool \<times> CommandHistory \<times> rect_heap \<times> 'd PDFDocument" where
  "history_execute h command hp p =
     (case execute command hp p of
        (ok, c', hp', p') \<Rightarrow>
          if ok then
            (True,
             h\<lparr>undo_stack := push_capped (max_stack_size h) (undo_stack h) c',
               redo_stack := []\<rparr>,
             hp', p')
          else (False, h, hp', p'))"

definition history_undo ::
  "('d \<Rightarrow> int \<Rightarrow> 'd \<times> bool) \<Rightarrow> CommandHistory \<Rightarrow> 'd PDFDocument
     \<Rightarrow> (error + bool) \<times> CommandHistory \<times> 'd PDFDocument" where
  "history_undo fz h p =
     (if undo_stack h = [] then (Inr False, h, p)
      else
        (let command = last (undo_stack h);
             h1 = h\<lparr>undo_stack := butlast (undo_stack h)\<rparr>
         in case undo fz command p of
              (Inr True, c', p') \<Rightarrow>
                (Inr True,
                 h1\<lparr>redo_stack := push_capped (max_stack_size h1) (redo_stack h1) c'\<rparr>, p')
            | (Inr False, c', p') \<Rightarrow> (Inr False, h1, p')
            | (Inl e, c', p') \<Rightarrow> (Inl e, h1, p')))"

definition history_redo ::
  "CommandHistory \<Rightarrow> rect_heap \<Rightarrow> 'd PDFDocument
     \<Rightarrow> bool \<times> CommandHistory \<times> rect_heap \<times> 'd PDFDocument" where
  "history_redo h hp p =
     (if redo_stack h = [] then (False, h, hp, p)
      else
        (let command = last (redo_stack h);
             h1 = h\<lparr>redo_stack := butlast (redo_stack h)\<rparr>
         in case execute command hp p of
              (ok, c', hp', p') \<Rightarrow>
                if ok then
                  (True,
                   h1\<lparr>undo_stack := push_capped (max_stack_size h1) (undo_stack h1) c'\<rparr>,
                   hp', p')
                else (False, h1, hp', p')))"

definition clear :: "CommandHistory \<Rightarrow> CommandHistory" where
  "clear h = h\<lparr>undo_stack := [], redo_stack := []\<rparr>"

text \<open>The dictionary written by \<^verbatim>\<open>CommandHistory.to_dict\<close>; \<^verbatim>\<open>load_from_dict\<close> reads all
  three keys with \<^verbatim>\<open>data.get\<close>, so each is optional.\<close>

record history_dict =
  key_undo_stack :: "command_dict list option"
  key_redo_stack :: "command_dict list option"
  key_max_stack_size :: "int option"

definition history_to_dict :: "CommandHistory \<Rightarrow> rect_heap \<Rightarrow> history_dict" where
  "history_to_dict h hp =
     \<lparr>key_undo_stack = Some (map (\<lambda>cmd. to_dict cmd hp) (undo_stack h)),
      key_redo_stack = Some (map (\<lambda>cmd. to_dict cmd hp) (redo_stack h)),
      key_max_stack_size = Some (max_stack_size h)\<rparr>"

text \<open>One of the two loops of \<^verbatim>\<open>load_from_dict\<close>: entries whose type is not
  \<^verbatim>\<open>'highlight'\<close> are passed over.\<close>

fun load_stack ::
  "command_dict list \<Rightarrow> HighlightCommand list \<Rightarrow> rect_heap
     \<Rightarrow> HighlightCommand list \<times> rect_heap" where
  "load_stack [] stack hp = (stack, hp)"
| "load_stack (cmd_data # rest) stack hp =
     (if key_type cmd_data = ''highlight'' then
        (case from_dict cmd_data hp of
           (command, hp') \<Rightarrow> load_stack rest (stack @ [command]) hp')
      else load_stack rest stack hp)"

definition load_from_dict ::
  "CommandHistory \<Rightarrow> history_dict \<Rightarrow> rect_heap \<Rightarrow> CommandHistory \<times> rect_heap" where
  "load_from_dict h data hp =
     (let h1 = clear h;
          h2 = h1\<lparr>max_stack_size :=
                   (case key_max_stack_size data of None \<Rightarrow> 100 | Some n \<Rightarrow> n)\<rparr>
      in case load_stack (case key_undo_stack data of None \<Rightarrow> [] | Some l \<Rightarrow> l)
                (undo_stack h2) hp of
           (us, hp1) \<Rightarrow>
             (case load_stack (case key_redo_stack data of None \<Rightarrow> [] | Some l \<Rightarrow> l)
                     (redo_stack h2) hp1 of
                (rs, hp2) \<Rightarrow> (h2\<lparr>undo_stack := us, redo_stack := rs\<rparr>, hp2)))"

subsection \<open>Line grouping of a text selection\<close>

text \<open>
  The rectangle computation of \<^verbatim>\<open>MainWindow.highlight_selected_text\<close>. A text block is
  \<^verbatim>\<open>{'text': char, 'rect': {'x', 'y', 'width', 'height'}}\<close> in screen coordinates. The
  selection indices come from \<^verbatim>\<open>enumerate\<close> over the blocks and are natural numbers.
\<close>

record box =
  box_x :: real
  box_y :: real
  box_width :: real
  box_height :: real

record text_block =
  block_text :: char
  block_rect :: box

definition py_int :: "real \<Rightarrow> int" where
  \<comment> \<open>\<^verbatim>\<open>int(x)\<close> on a float rounds towards zero\<close>
  "py_int v = (if 0 \<le> v then \<lfloor>v\<rfloor> else \<lceil>v\<rceil>)"

text \<open>\<^verbatim>\<open>min(...)\<close> and \<^verbatim>\<open>max(...)\<close> over a line that has a first box.\<close>

definition min_of :: "real \<Rightarrow> real list \<Rightarrow> real" where
  "min_of v vs = foldl min v vs"

definition max_of :: "real \<Rightarrow> real list \<Rightarrow> real" where
  "max_of v vs = foldl max v vs"

text \<open>Closing a line: nothing for an empty line, otherwise one rectangle in document
  space. Each coordinate is divided by the zoom level, which raises
  \<^verbatim>\<open>ZeroDivisionError\<close> when the zoom level is zero.\<close>

fun close_line :: "box list \<Rightarrow> real \<Rightarrow> Rect list \<Rightarrow> error + Rect list" where
  "close_line [] zoom_level selected_rects = Inr selected_rects"
| "close_line (b # bs) zoom_level selected_rects =
     (let x_start = min_of (box_x b) (map box_x bs);
          x_end = max_of (box_x b + box_width b) (map (\<lambda>r. box_x r + box_width r) bs)
      in if zoom_level = 0 then Inl ZeroDivisionError
         else Inr (selected_rects @
                [\<lparr>x0 = x_start / zoom_level,
                  y0 = box_y b / zoom_level,
                  x1 = x_end / zoom_level,
                  y1 = (box_y b + box_height b) / zoom_level\<rparr>]))"

text \<open>The loop body, over the blocks of the index range that exist.\<close>

fun group_loop ::
  "text_block list \<Rightarrow> real \<Rightarrow> Rect list \<Rightarrow> box list \<Rightarrow> int option
     \<Rightarrow> error + (Rect list \<times> box list)" where
  "group_loop [] zoom_level selected_rects current_line current_y =
     Inr (selected_rects, current_line)"
| "group_loop (blk # rest) zoom_level selected_rects current_line current_y =
     (let rect = block_rect blk;
          y = py_int (box_y rect)
      in if (case current_y of None \<Rightarrow> True
             | Some cy \<Rightarrow> real_of_int \<bar>y - cy\<bar> > box_height rect * 0.5) then
           (case close_line current_line zoom_level selected_rects of
              Inl e \<Rightarrow> Inl e
            | Inr selected_rects' \<Rightarrow> group_loop rest zoom_level selected_rects' [rect] (Some y))
         else group_loop rest zoom_level selected_rects (current_line @ [rect]) current_y)"

definition selection_rects ::
  "text_block list \<Rightarrow> real \<Rightarrow> nat \<Rightarrow> nat \<Rightarrow> error + Rect list" where
  "selection_rects text_blocks zoom_level selection_start selection_end =
     (let start_idx = min selection_start selection_end;
          end_idx = max selection_start selection_end;
          range = take (end_idx + 1 - start_idx) (drop start_idx text_blocks)
      in case group_loop range zoom_level [] [] None of
           Inl e \<Rightarrow> Inl e
         | Inr (selected_rects, current_line) \<Rightarrow>
             close_line current_line zoom_level selected_rects)"

section \<open>Auxiliary definitions\<close>

text \<open>The annotation dictionary that \<^verbatim>\<open>add_highlight\<close> builds for a rectangle object.\<close>

definition new_annotation :: "int \<Rightarrow> QColor \<Rightarrow> ref \<Rightarrow> annotation" where
  "new_annotation pg col r =
     \<lparr>ann_type = ''highlight'', ann_rect = r, ann_page = pg, ann_color = col\<rparr>"

text \<open>Padding the rectangle objects of a list one after the other; an object that occurs
  twice is padded twice.\<close>

definition pad_all :: "ref list \<Rightarrow> (ref \<Rightarrow> Rect) \<Rightarrow> (ref \<Rightarrow> Rect)" where
  "pad_all rs f = fold (\<lambda>r g. g(r := pad (g r))) rs f"

text \<open>The guard of the loop of \<^verbatim>\<open>undo\<close>, for an integer index.\<close>

definition in_range :: "'d PDFDocument \<Rightarrow> int option \<Rightarrow> bool" where
  "in_range p idx =
     (case idx of None \<Rightarrow> False | Some i \<Rightarrow> 0 \<le> i \<and> i < int (length (annotations p)))"



text \<open>Components of the result of \<open>execute\<close>.\<close>

definition result_command :: "'r \<times> HighlightCommand \<times> 'h \<times> 's \<Rightarrow> HighlightCommand" where
  "result_command t = fst (snd t)"

definition result_heap :: "'r \<times> 'c \<times> rect_heap \<times> 's \<Rightarrow> rect_heap" where
  "result_heap t = fst (snd (snd t))"

definition result_store :: "'r \<times> 'c \<times> 'h \<times> 'd PDFDocument \<Rightarrow> 'd PDFDocument" where
  "result_store t = snd (snd (snd t))"

text \<open>The rectangle of a line of boxes, with the extent written as minimum and maximum
  over the line.\<close>

definition line_rect :: "box list \<Rightarrow> real \<Rightarrow> Rect" where
  "line_rect bs zoom_level =
     \<lparr>x0 = Min (box_x ` set bs) / zoom_level,
      y0 = box_y (hd bs) / zoom_level,
      x1 = Max ((\<lambda>r. box_x r + box_width r) ` set bs) / zoom_level,
      y1 = (box_y (hd bs) + box_height (hd bs)) / zoom_level\<rparr>"

text \<open>
  Sequences of calls on a \<^verbatim>\<open>CommandHistory\<close>. A call leaves the history, the heap and the
  store in some state whatever it returns or raises, and the next call starts from there.
  \<open>execute_all\<close> runs the commands of a list in order with no history, and returns
  them in the state \<open>execute\<close> leaves them in.
\<close>

datatype history_call = Execute HighlightCommand | Undo | Redo

fun call ::
  "('d \<Rightarrow> int \<Rightarrow> 'd \<times> bool) \<Rightarrow> history_call
     \<Rightarrow> CommandHistory \<times> rect_heap \<times> 'd PDFDocument
     \<Rightarrow> CommandHistory \<times> rect_heap \<times> 'd PDFDocument" where
  "call fz (Execute c) (h, hp, p) =
     (case history_execute h c hp p of (ok, h', hp', p') \<Rightarrow> (h', hp', p'))"
| "call fz Undo (h, hp, p) =
     (case history_undo fz h p of (res, h', p') \<Rightarrow> (h', hp, p'))"
| "call fz Redo (h, hp, p) =
     (case history_redo h hp p of (ok, h', hp', p') \<Rightarrow> (h', hp', p'))"

definition run_calls ::
  "('d \<Rightarrow> int \<Rightarrow> 'd \<times> bool) \<Rightarrow> history_call list
     \<Rightarrow> CommandHistory \<times> rect_heap \<times> 'd PDFDocument
     \<Rightarrow> CommandHistory \<times> rect_heap \<times> 'd PDFDocument" where
  "run_calls fz calls st = fold (call fz) calls st"

fun execute_all ::
  "HighlightCommand list \<Rightarrow> rect_heap \<Rightarrow> 'd PDFDocument
     \<Rightarrow> HighlightCommand list \<times> rect_heap \<times> 'd PDFDocument" where
  "execute_all [] hp p = ([], hp, p)"
| "execute_all (c # cs) hp p =
     (case execute c hp p of
        (ok, c', hp', p') \<Rightarrow>
          (case execute_all cs hp' p' of (cs', hp'', p'') \<Rightarrow> (c' # cs', hp'', p'')))"

definition within_cap :: "CommandHistory \<Rightarrow> bool" where
  "within_cap h \<longleftrightarrow>
     int (length (undo_stack h)) \<le> max_stack_size h \<and>
     int (length (redo_stack h)) \<le> max_stack_size h"

text \<open>A later heap extends an earlier one when every object of the earlier heap is
  still there with the same coordinates.\<close>

definition heap_extends :: "rect_heap \<Rightarrow> rect_heap \<Rightarrow> bool" where
  "heap_extends hp hp' \<longleftrightarrow>
     next_ref hp \<le> next_ref hp' \<and> (\<forall>r < next_ref hp. cells hp' r = cells hp r)"

subsection \<open>Example states\<close>

text \<open>One rectangle object (10, 20, 30, 40) at address 0, an empty store with no document
  open, and a new command that highlights that rectangle on page 0.\<close>

definition ex_heap :: rect_heap where
  "ex_heap = \<lparr>cells = (\<lambda>_. \<lparr>x0 = 0, y0 = 0, x1 = 0, y1 = 0\<rparr>)
                         (0 := \<lparr>x0 = 10, y0 = 20, x1 = 30, y1 = 40\<rparr>),
               next_ref = 1\<rparr>"

definition ex_store :: "unit PDFDocument" where
  "ex_store = \<lparr>doc = None, annotations = []\<rparr>"

definition ex_command :: HighlightCommand where
  "ex_command = HighlightCommand_init [0] 0 (QColor_init 255 255 0 100)"

definition no_raise :: "unit \<Rightarrow> int \<Rightarrow> unit \<times> bool" where
  "no_raise d pg = (d, True)"

text \<open>The command after its first \<open>execute\<close>.\<close>

definition ex_applied :: "bool \<times> HighlightCommand \<times> rect_heap \<times> unit PDFDocument" where
  "ex_applied = execute ex_command ex_heap ex_store"

text \<open>The applied command written by \<open>to_dict\<close> and read back by \<open>from_dict\<close>.\<close>

definition ex_reloaded :: "HighlightCommand \<times> rect_heap" where
  "ex_reloaded =
     from_dict (to_dict (result_command ex_applied) (result_heap ex_applied))
       (result_heap ex_applied)"

text \<open>The applied command with a second index that is outside the store.\<close>

definition ex_stale :: HighlightCommand where
  "ex_stale = (result_command ex_applied)\<lparr>annotation_indices := [Some 0, Some 5]\<rparr>"

text \<open>The applied command after a successful \<open>undo\<close>, and that command written by
  \<open>to_dict\<close> and read back by \<open>from_dict\<close>.\<close>

definition ex_undone :: "(error + bool) \<times> HighlightCommand \<times> unit PDFDocument" where
  "ex_undone = undo no_raise (result_command ex_applied) (result_store ex_applied)"

definition ex_reversed_reloaded :: "HighlightCommand \<times> rect_heap" where
  "ex_reversed_reloaded =
     from_dict (to_dict (fst (snd ex_undone)) (result_heap ex_applied)) (result_heap ex_applied)"






text \<open>The characters of the two-line text \<open>ab\<close>, \<open>cd\<close> that have a box: two on the line at y = 0 and two
  on the line at y = 12, all of height 10.\<close>

definition ex_blocks :: "text_block list" where
  "ex_blocks =
     [\<lparr>block_text = CHR ''a'', block_rect = \<lparr>box_x = 3, box_y = 0, box_width = 5, box_height = 10\<rparr>\<rparr>,
      \<lparr>block_text = CHR ''b'', block_rect = \<lparr>box_x = 8, box_y = 0, box_width = 5, box_height = 10\<rparr>\<rparr>,
      \<lparr>block_text = CHR ''c'', block_rect = \<lparr>box_x = 3, box_y = 12, box_width = 5, box_height = 10\<rparr>\<rparr>,
      \<lparr>block_text = CHR ''d'', block_rect = \<lparr>box_x = 8, box_y = 12, box_width = 6, box_height = 10\<rparr>\<rparr>]"

text \<open>Two rectangle objects, and a second new command for the second one.\<close>

definition ex_two_rects :: rect_heap where
  "ex_two_rects = \<lparr>cells = (\<lambda>_. \<lparr>x0 = 0, y0 = 0, x1 = 0, y1 = 0\<rparr>)
                         (0 := \<lparr>x0 = 10, y0 = 20, x1 = 30, y1 = 40\<rparr>,
                          1 := \<lparr>x0 = 10, y0 = 50, x1 = 30, y1 = 70\<rparr>),
                    next_ref = 2\<rparr>"

definition ex_second :: HighlightCommand where
  "ex_second = HighlightCommand_init [1] 1 InvalidColor"

section \<open>Properties of the store and of the command\<close>

lemma result_tuple:
  "result_command (r, c, h, s) = c" "result_heap (r, c, h, s) = h" "result_store (r, c, h, s) = s"
  by (simp_all add: result_command_def result_heap_def result_store_def)

lemma add_highlight_RectObject:
  "add_highlight hp p (RectObject r) pg col =
     (None, hp\<lparr>cells := (cells hp)(r := pad (cells hp r))\<rparr>,
      p\<lparr>annotations := annotations p @ [new_annotation pg col r]\<rparr>)"
  by (simp add: add_highlight_def new_annotation_def)

text \<open>The first-execution loop in closed form: the new records go to the end of the store in
  rectangle order, and the indices appended are the positions they get.\<close>

lemma add_loop_eq:
  "add_loop rs pg col idxs hp p =
     (idxs @ map (\<lambda>k. Some (int k))
               [length (annotations p)..<length (annotations p) + length rs],
      hp\<lparr>cells := pad_all rs (cells hp)\<rparr>,
      p\<lparr>annotations := annotations p @ map (new_annotation pg col) rs\<rparr>)"
proof (induction rs arbitrary: idxs hp p)
  case Nil
  then show ?case by (simp add: pad_all_def)
next
  case (Cons r rs)
  show ?case
    by (simp add: add_highlight_RectObject Cons.IH pad_all_def upt_conv_Cons del: upt_Suc)
qed

lemma ex_applied_eq:
  "ex_applied =
     (True,
      \<lparr>rects = [0], page_num = 0, color = RGBA 255 255 0 100,
       annotation_indices = [Some 0], removed_annotations = []\<rparr>,
      ex_heap\<lparr>cells := (cells ex_heap)(0 := \<lparr>x0 = 9, y0 = 20, x1 = 31, y1 = 40\<rparr>)\<rparr>,
      \<lparr>doc = None, annotations = [new_annotation 0 (RGBA 255 255 0 100) 0]\<rparr>)"
  by (simp add: ex_applied_def ex_command_def ex_heap_def ex_store_def execute_def add_loop_eq
      HighlightCommand_init_def pad_all_def pad_def QColor_init_def channel_ok_def)

subsection \<open>\<open>add_highlight\<close>\<close>




subsection \<open>\<open>execute\<close> has no failure path\<close>


subsection \<open>A new command discards the redo history\<close>

text \<open>
  C5. For every state of the two stacks, after \<^verbatim>\<open>CommandHistory.execute(command)\<close> the redo
  stack is empty and \<^verbatim>\<open>will_lose_redo_history()\<close> returns \<^verbatim>\<open>False\<close>. (The command's
  \<^verbatim>\<open>execute\<close> always succeeds, so this is every call.)
\<close>

theorem history_execute_clears_redo:
  "redo_stack (fst (snd (history_execute h c hp p))) = [] \<and>
   \<not> will_lose_redo_history (fst (snd (history_execute h c hp p)))"
  by (simp add: history_execute_def execute_def add_loop_eq will_lose_redo_history_def)

subsection \<open>The state of a command after \<open>execute\<close>\<close>

text \<open>
  C4, as the code has it. After every \<^verbatim>\<open>execute()\<close> the pending snapshot
  \<open>removed_annotations\<close> is empty and \<open>rects\<close> is the same list. When the snapshot was not
  empty (a redo) the number of indices is unchanged; otherwise one index per rectangle is
  appended to the indices already there. So \<open>len(rects) == len(annotation_indices)\<close>
  holds after the first execution of a new command and is kept by a redo, but a command
  rebuilt by \<^verbatim>\<open>from_dict\<close> with \<open>k\<close> serialised indices has \<open>k + len(rects)\<close> indices after
  \<^verbatim>\<open>execute()\<close>.
\<close>

theorem execute_snapshot_and_index_count:
  "fst (execute c hp p) = True \<and>
   removed_annotations (result_command (execute c hp p)) = [] \<and>
   rects (result_command (execute c hp p)) = rects c \<and>
   length (annotation_indices (result_command (execute c hp p))) =
     (if removed_annotations c \<noteq> [] then length (annotation_indices c)
      else length (annotation_indices c) + length (rects c))"
  by (simp add: execute_def add_loop_eq result_command_def)

text \<open>
  The claim as written fails for a rebuilt command: the example command is executed,
  serialised with its one index, rebuilt and executed. It then has one rectangle and two
  indices.
\<close>

theorem reloaded_execute_index_count:
  "key_annotation_indices (to_dict (result_command ex_applied) (result_heap ex_applied))
     = Some [Some 0] \<and>
   fst (execute (fst ex_reloaded) (snd ex_reloaded) (result_store ex_applied)) = True \<and>
   length (rects (result_command
      (execute (fst ex_reloaded) (snd ex_reloaded) (result_store ex_applied)))) = 1 \<and>
   length (annotation_indices (result_command
      (execute (fst ex_reloaded) (snd ex_reloaded) (result_store ex_applied)))) = 2"
  by (simp add: ex_reloaded_def ex_applied_eq
      execute_def add_loop_eq result_command_def result_heap_def result_store_def
      from_dict_def to_dict_def HighlightCommand_init_def new_Rect_def)

subsection \<open>\<open>undo\<close> and indices outside the store\<close>

text \<open>A removal never makes the store longer, so an index that is outside the store when
  \<open>undo\<close> starts is outside it whenever the loop reaches it.\<close>

lemma remove_annotation_length:
  "length (annotations (snd (remove_annotation fz p i))) \<le> length (annotations p)"
  by (auto simp: remove_annotation_def py_pop_def py_insert_def Let_def
      split: option.splits prod.splits bool.splits)

lemma undo_loop_skips:
  "None \<notin> set idxs \<Longrightarrow> length (annotations p) \<le> length (annotations p0) \<Longrightarrow>
   undo_loop fz idxs removed p = undo_loop fz (filter (in_range p0) idxs) removed p"
proof (induction idxs arbitrary: removed p)
  case Nil
  then show ?case by simp
next
  case (Cons idx idxs)
  then obtain i where idx: "idx = Some i" by (cases idx) auto
  show ?case
  proof (cases "0 \<le> i \<and> i < int (length (annotations p))")
    case True
    obtain ok p' where rm: "remove_annotation fz p i = (ok, p')"
      by (cases "remove_annotation fz p i")
    have "length (annotations p') \<le> length (annotations p0)"
      using remove_annotation_length[of fz p i] rm Cons.prems(2) by simp
    with Cons.IH[of p' "(annotations p ! nat i) # removed"] Cons.prems(1)
    show ?thesis using True idx rm Cons.prems(2) by (simp add: Let_def in_range_def)
  next
    case False
    with idx Cons show ?thesis by (auto simp add: Let_def in_range_def)
  qed
qed

lemma remove_annotation_ok:
  assumes "doc p = None \<or> (\<forall>d pg. snd (fz d pg))"
    and "0 \<le> i" and "i < int (length (annotations p))"
  shows "fst (remove_annotation fz p i) = True \<and>
         annotations (snd (remove_annotation fz p i)) = py_pop i (annotations p) \<and>
         (doc p = None \<longrightarrow> doc (snd (remove_annotation fz p i)) = None)"
proof (cases "doc p")
  case None
  with assms show ?thesis by (simp add: remove_annotation_def)
next
  case (Some d)
  with assms(1) have "snd (fz d (ann_page (annotations p ! nat i)))" by simp
  then obtain d' where "fz d (ann_page (annotations p ! nat i)) = (d', True)"
    by (cases "fz d (ann_page (annotations p ! nat i))") auto
  with Some assms(2,3) show ?thesis by (simp add: remove_annotation_def)
qed

lemma undo_loop_ok:
  "None \<notin> set idxs \<Longrightarrow> doc p = None \<or> (\<forall>d pg. snd (fz d pg)) \<Longrightarrow>
   fst (undo_loop fz idxs removed p) = Inr True"
proof (induction idxs arbitrary: removed p)
  case Nil
  then show ?case by simp
next
  case (Cons idx idxs)
  then obtain i where idx: "idx = Some i" by (cases idx) auto
  show ?case
  proof (cases "0 \<le> i \<and> i < int (length (annotations p))")
    case True
    obtain ok p' where rm: "remove_annotation fz p i = (ok, p')"
      by (cases "remove_annotation fz p i")
    from remove_annotation_ok[OF Cons.prems(2), of i] True rm
    have ok: "ok" and d: "doc p = None \<longrightarrow> doc p' = None" by simp_all
    from d Cons.prems(2) have "doc p' = None \<or> (\<forall>d pg. snd (fz d pg))" by auto
    with Cons.IH[of p' "(annotations p ! nat i) # removed"] Cons.prems(1)
    show ?thesis using True idx rm ok by (simp add: Let_def)
  next
    case False
    with Cons idx show ?thesis by (auto simp add: Let_def)
  qed
qed

text \<open>
  C3, as the code has it. For a command whose \<open>annotation_indices\<close> is not empty and holds
  integers only, \<^verbatim>\<open>undo()\<close> does not abort at an index that is not a valid index into the
  store: it passes over it and goes on, so the outcome is that of the loop run over the
  valid indices alone. It returns \<^verbatim>\<open>True\<close> whenever no removal fails, which is the case
  when no document is open or PyMuPDF does not raise.
\<close>

theorem undo_passes_over_invalid_indices:
  assumes "annotation_indices c \<noteq> []" and "None \<notin> set (annotation_indices c)"
  shows "undo fz c p =
           (case undo_loop fz (rev (filter (in_range p) (annotation_indices c))) [] p of
              (res, removed, p') \<Rightarrow> (res, c\<lparr>removed_annotations := removed\<rparr>, p')) \<and>
         (doc p = None \<or> (\<forall>d pg. snd (fz d pg)) \<longrightarrow> fst (undo fz c p) = Inr True)"
proof -
  have "None \<notin> set (rev (annotation_indices c))" using assms(2) by simp
  from undo_loop_skips[OF this order_refl, of fz "[]"]
  have "undo_loop fz (rev (annotation_indices c)) [] p =
        undo_loop fz (rev (filter (in_range p) (annotation_indices c))) [] p"
    by (simp add: rev_filter)
  moreover have "doc p = None \<or> (\<forall>d pg. snd (fz d pg)) \<longrightarrow>
      fst (undo_loop fz (rev (annotation_indices c)) [] p) = Inr True"
    using undo_loop_ok[of "rev (annotation_indices c)" p fz "[]"] assms(2) by simp
  ultimately show ?thesis using assms(1)
    by (auto simp add: undo_def split: prod.splits)
qed


text \<open>
  The claim as written fails: the store holds one record, the command has the indices
  0 and 5. \<^verbatim>\<open>undo()\<close> passes over 5, removes record 0 and returns \<^verbatim>\<open>True\<close>.
\<close>

theorem undo_stale_index_returns_true:
  "annotation_indices ex_stale = [Some 0, Some 5] \<and>
   length (annotations (result_store ex_applied)) = 1 \<and>
   fst (undo no_raise ex_stale (result_store ex_applied)) = Inr True \<and>
   annotations (snd (snd (undo no_raise ex_stale (result_store ex_applied)))) = []"
  by (simp add: ex_stale_def ex_applied_eq result_command_def result_store_def undo_def
      remove_annotation_def py_pop_def Let_def)

theorem undo_passes_over_invalid_indices_witness:
  "annotation_indices ex_stale \<noteq> [] \<and> None \<notin> set (annotation_indices ex_stale) \<and>
   doc (result_store ex_applied) = None \<and>
   fst (undo no_raise ex_stale (result_store ex_applied)) = Inr True"
proof -
  have a: "annotation_indices ex_stale \<noteq> []" by (simp add: ex_stale_def)
  have b: "None \<notin> set (annotation_indices ex_stale)" by (simp add: ex_stale_def)
  have c: "doc (result_store ex_applied) = None" by (simp add: ex_applied_eq result_store_def)
  from undo_passes_over_invalid_indices[OF a b, of no_raise "result_store ex_applied"] c
  have "fst (undo no_raise ex_stale (result_store ex_applied)) = Inr True" by blast
  with a b c show ?thesis by simp
qed


subsection \<open>Commands read back from their dictionary\<close>

lemma new_Rects_eq:
  "fst (new_Rects vs hp) = [next_ref hp..<next_ref hp + length vs] \<and>
   next_ref (snd (new_Rects vs hp)) = next_ref hp + length vs \<and>
   (\<forall>r < next_ref hp. cells (snd (new_Rects vs hp)) r = cells hp r) \<and>
   map (cells (snd (new_Rects vs hp))) [next_ref hp..<next_ref hp + length vs] = vs"
proof (induction vs arbitrary: hp)
  case Nil
  then show ?case by simp
next
  case (Cons v vs)
  let ?hp1 = "snd (new_Rect v hp)"
  have n1: "next_ref ?hp1 = Suc (next_ref hp)" by (simp add: new_Rect_def)
  have c1: "cells ?hp1 = (cells hp)(next_ref hp := v)" by (simp add: new_Rect_def)
  have f1: "fst (new_Rect v hp) = next_ref hp" by (simp add: new_Rect_def)
  note IH = Cons.IH[of ?hp1]
  have keep: "cells (snd (new_Rects vs ?hp1)) (next_ref hp) = v"
    using IH n1 c1 by simp
  show ?case
    using IH keep
    by (simp add: split_beta n1 c1 f1 upt_conv_Cons del: upt_Suc)
qed


lemma channel_ok_uint: "channel_ok (uint (w :: 8 word))"
proof -
  have "uint w < 2 ^ 8" using uint_bounded[of w] by simp
  then show ?thesis by (simp add: channel_ok_def)
qed

lemma QColor_init_channels:
  "QColor_init (red c) (green c) (blue c) (alpha c) =
     (case c of RGBA r g b a \<Rightarrow> c | InvalidColor \<Rightarrow> RGBA 0 0 0 255)"
proof (cases c)
  case (RGBA r g b a)
  then show ?thesis by (simp add: QColor_init_def channel_ok_uint)
next
  case InvalidColor
  then show ?thesis by (simp add: QColor_init_def channel_ok_def)
qed

lemma QColor_init_channels_same:
  "red (QColor_init (red c) (green c) (blue c) (alpha c)) = red c \<and>
   green (QColor_init (red c) (green c) (blue c) (alpha c)) = green c \<and>
   blue (QColor_init (red c) (green c) (blue c) (alpha c)) = blue c \<and>
   alpha (QColor_init (red c) (green c) (blue c) (alpha c)) = alpha c"
  using QColor_init_channels[of c] by (cases c) simp_all

lemma from_dict_to_dict:
  "from_dict (to_dict c hp) hp =
     (\<lparr>rects = [next_ref hp..<next_ref hp + length (rects c)],
       page_num = page_num c,
       color = QColor_init (red (color c)) (green (color c)) (blue (color c)) (alpha (color c)),
       annotation_indices = annotation_indices c,
       removed_annotations = []\<rparr>,
      snd (new_Rects (map (cells hp) (rects c)) hp))"
  using new_Rects_eq[of "map (cells hp) (rects c)" hp]
  by (simp add: from_dict_def to_dict_def HighlightCommand_init_def split_beta)

text \<open>
  C2, as the code has it. \<^verbatim>\<open>to_dict\<close> does not write the pending snapshot and
  \<^verbatim>\<open>from_dict\<close> cannot restore it: the command rebuilt by \<^verbatim>\<open>from_dict(to_dict(command))\<close>
  has an empty \<open>removed_annotations\<close>, the serialised \<open>annotation_indices\<close> and new
  rectangle objects with the serialised coordinates. \<^verbatim>\<open>execute()\<close> on it is a first
  execution: every rectangle is padded again and appended to the store as a new record,
  and the new positions are appended to the indices. No removed record is reinserted.
\<close>

theorem reloaded_command_executes_anew:
  "removed_annotations (fst (from_dict (to_dict c hp) hp)) = [] \<and>
   annotation_indices (fst (from_dict (to_dict c hp) hp)) = annotation_indices c \<and>
   rects (fst (from_dict (to_dict c hp) hp)) = [next_ref hp..<next_ref hp + length (rects c)] \<and>
   map (cells (snd (from_dict (to_dict c hp) hp))) (rects (fst (from_dict (to_dict c hp) hp)))
     = map (cells hp) (rects c) \<and>
   execute (fst (from_dict (to_dict c hp) hp)) (snd (from_dict (to_dict c hp) hp)) p =
     (True,
      (fst (from_dict (to_dict c hp) hp))
        \<lparr>annotation_indices :=
           annotation_indices c @
           map (\<lambda>k. Some (int k))
             [length (annotations p)..<length (annotations p) + length (rects c)]\<rparr>,
      (snd (from_dict (to_dict c hp) hp))
        \<lparr>cells := pad_all (rects (fst (from_dict (to_dict c hp) hp)))
                    (cells (snd (from_dict (to_dict c hp) hp)))\<rparr>,
      p\<lparr>annotations :=
          annotations p @
          map (new_annotation (page_num c) (color (fst (from_dict (to_dict c hp) hp))))
            (rects (fst (from_dict (to_dict c hp) hp)))\<rparr>)"
  using new_Rects_eq[of "map (cells hp) (rects c)" hp]
  by (simp add: from_dict_to_dict execute_def add_loop_eq)

lemma ex_undone_eq:
  "ex_undone =
     (Inr True,
      \<lparr>rects = [0], page_num = 0, color = RGBA 255 255 0 100,
       annotation_indices = [Some 0],
       removed_annotations = [new_annotation 0 (RGBA 255 255 0 100) 0]\<rparr>,
      \<lparr>doc = None, annotations = []\<rparr>)"
  by (simp add: ex_undone_def ex_applied_eq result_command_def result_store_def undo_def
      remove_annotation_def py_pop_def Let_def)

text \<open>
  The claim as written fails: the example command is executed and undone, so it is
  Reversed and its snapshot holds the removed record. Executing it puts that record back
  with region (9, 20, 31, 40). The rebuilt command has an empty snapshot, and executing it
  adds a new record with region (8, 20, 32, 40) and leaves the indices [0, 0].
\<close>

theorem reloaded_reversed_command_adds_new_record:
  "fst ex_undone = Inr True \<and>
   removed_annotations (fst (snd ex_undone)) = [new_annotation 0 (RGBA 255 255 0 100) 0] \<and>
   removed_annotations (fst ex_reversed_reloaded) = [] \<and>
   page_highlights
     (result_heap (execute (fst (snd ex_undone)) (result_heap ex_applied) (snd (snd ex_undone))))
     (result_store (execute (fst (snd ex_undone)) (result_heap ex_applied) (snd (snd ex_undone))))
     0 = [(''highlight'', \<lparr>x0 = 9, y0 = 20, x1 = 31, y1 = 40\<rparr>, 0, RGBA 255 255 0 100)] \<and>
   page_highlights
     (result_heap (execute (fst ex_reversed_reloaded) (snd ex_reversed_reloaded) (snd (snd ex_undone))))
     (result_store (execute (fst ex_reversed_reloaded) (snd ex_reversed_reloaded) (snd (snd ex_undone))))
     0 = [(''highlight'', \<lparr>x0 = 8, y0 = 20, x1 = 32, y1 = 40\<rparr>, 0, RGBA 255 255 0 100)] \<and>
   annotation_indices
     (result_command (execute (fst ex_reversed_reloaded) (snd ex_reversed_reloaded) (snd (snd ex_undone))))
     = [Some 0, Some 0]"
  by (simp add: ex_reversed_reloaded_def ex_undone_eq ex_applied_eq result_heap_def
      result_store_def result_command_def from_dict_to_dict execute_def add_loop_eq
      page_highlights_def new_annotation_def py_insert_def pad_all_def pad_def ex_heap_def
      new_Rect_def QColor_init_def channel_ok_def)

subsection \<open>Execute, undo, redo\<close>

lemma py_insert_end: "py_insert (int (length xs)) x xs = xs @ [x]"
  by (simp add: py_insert_def)









section \<open>Line grouping\<close>

lemma min_of_Min: "min_of v vs = Min (set (v # vs))"
proof -
  have "foldl min v vs = fold min vs v"
    by (simp add: foldl_conv_fold min.commute)
  then show ?thesis using Min.set_eq_fold[of v vs] by (simp add: min_of_def)
qed

lemma max_of_Max: "max_of v vs = Max (set (v # vs))"
proof -
  have "foldl max v vs = fold max vs v"
    by (simp add: foldl_conv_fold max.commute)
  then show ?thesis using Max.set_eq_fold[of v vs] by (simp add: max_of_def)
qed

lemma close_line_eq:
  "bs \<noteq> [] \<Longrightarrow> zoom \<noteq> 0 \<Longrightarrow> close_line bs zoom sel = Inr (sel @ [line_rect bs zoom])"
  by (cases bs) (simp_all add: line_rect_def min_of_Min max_of_Max Let_def)

lemma group_loop_same_line:
  assumes "\<forall>b \<in> set bs. py_int (box_y (block_rect b)) = y \<and> 0 \<le> box_height (block_rect b)"
  shows "group_loop (bs @ rest) zoom sel cur (Some y) =
         group_loop rest zoom sel (cur @ map block_rect bs) (Some y)"
  using assms
proof (induction bs arbitrary: cur)
  case Nil
  then show ?case by simp
next
  case (Cons b bs)
  then show ?case by (simp add: Let_def)
qed

text \<open>
  C9. The blocks of the first line (at y = 0, height 10) are followed by the blocks of the
  second line (at y = 12, height 10), and the zoom level is not zero. Selecting the full
  range gives exactly two rectangles, one per line: each spans from the least \<open>x\<close> to the
  greatest \<open>x + width\<close> of its line and takes the \<open>y\<close> and the height of the line's first
  box, every coordinate divided by the zoom level.
\<close>

theorem two_lines_two_rectangles:
  assumes "l1 \<noteq> []" and "l2 \<noteq> []"
    and "\<forall>b \<in> set l1. box_y (block_rect b) = 0 \<and> box_height (block_rect b) = 10"
    and "\<forall>b \<in> set l2. box_y (block_rect b) = 12 \<and> box_height (block_rect b) = 10"
    and "zoom_level \<noteq> 0"
  shows "selection_rects (l1 @ l2) zoom_level 0 (length (l1 @ l2) - 1) =
           Inr [\<lparr>x0 = Min (box_x ` block_rect ` set l1) / zoom_level,
                 y0 = 0 / zoom_level,
                 x1 = Max ((\<lambda>r. box_x r + box_width r) ` block_rect ` set l1) / zoom_level,
                 y1 = (0 + 10) / zoom_level\<rparr>,
                \<lparr>x0 = Min (box_x ` block_rect ` set l2) / zoom_level,
                 y0 = 12 / zoom_level,
                 x1 = Max ((\<lambda>r. box_x r + box_width r) ` block_rect ` set l2) / zoom_level,
                 y1 = (12 + 10) / zoom_level\<rparr>]"
proof -
  obtain a as where l1: "l1 = a # as" using assms(1) by (cases l1) auto
  obtain c cs where l2: "l2 = c # cs" using assms(2) by (cases l2) auto
  have range: "take (length (l1 @ l2) - 1 + 1 - 0) (drop 0 (l1 @ l2)) = l1 @ l2"
    using l1 by simp
  have ya: "py_int (box_y (block_rect a)) = 0"
    using assms(3) l1 by (simp add: py_int_def)
  have yc: "py_int (box_y (block_rect c)) = 12" and hc: "box_height (block_rect c) = 10"
    using assms(4) l2 by (simp_all add: py_int_def)
  have same1: "\<forall>b \<in> set as. py_int (box_y (block_rect b)) = 0 \<and> 0 \<le> box_height (block_rect b)"
    using assms(3) l1 by (simp add: py_int_def)
  have same2: "\<forall>b \<in> set cs. py_int (box_y (block_rect b)) = 12 \<and> 0 \<le> box_height (block_rect b)"
    using assms(4) l2 by (simp add: py_int_def)
  let ?b1 = "block_rect a # map block_rect as"
  let ?b2 = "block_rect c # map block_rect cs"
  have "group_loop (l1 @ l2) zoom_level [] [] None =
        group_loop (as @ c # cs) zoom_level [] [block_rect a] (Some 0)"
    by (simp add: l1 l2 ya Let_def)
  also have "\<dots> = group_loop (c # cs) zoom_level [] ?b1 (Some 0)"
    using group_loop_same_line[OF same1, of "c # cs" zoom_level "[]" "[block_rect a]"] by simp
  also have "\<dots> = group_loop (cs @ []) zoom_level [line_rect ?b1 zoom_level] [block_rect c] (Some 12)"
    using close_line_eq[of ?b1 zoom_level "[]"] assms(5)
    by (simp add: yc hc Let_def del: close_line.simps)
  also have "\<dots> = Inr ([line_rect ?b1 zoom_level], ?b2)"
    using group_loop_same_line[OF same2, of "[]" zoom_level "[line_rect ?b1 zoom_level]" "[block_rect c]"]
    by simp
  finally have loop: "group_loop (l1 @ l2) zoom_level [] [] None =
      Inr ([line_rect ?b1 zoom_level], ?b2)" .
  have res: "selection_rects (l1 @ l2) zoom_level 0 (length (l1 @ l2) - 1) =
      Inr [line_rect ?b1 zoom_level, line_rect ?b2 zoom_level]"
    using close_line_eq[of ?b2 zoom_level "[line_rect ?b1 zoom_level]"] assms(5) range loop
    by (simp add: selection_rects_def Let_def del: close_line.simps)
  have r1: "line_rect ?b1 zoom_level =
      \<lparr>x0 = Min (box_x ` block_rect ` set l1) / zoom_level,
       y0 = 0 / zoom_level,
       x1 = Max ((\<lambda>r. box_x r + box_width r) ` block_rect ` set l1) / zoom_level,
       y1 = (0 + 10) / zoom_level\<rparr>"
    using assms(3) l1 by (simp add: line_rect_def)
  have r2: "line_rect ?b2 zoom_level =
      \<lparr>x0 = Min (box_x ` block_rect ` set l2) / zoom_level,
       y0 = 12 / zoom_level,
       x1 = Max ((\<lambda>r. box_x r + box_width r) ` block_rect ` set l2) / zoom_level,
       y1 = (12 + 10) / zoom_level\<rparr>"
    using assms(4) l2 by (simp add: line_rect_def)
  show ?thesis unfolding res r1 r2 ..
qed

theorem two_lines_two_rectangles_witness:
  "take 2 ex_blocks \<noteq> [] \<and> drop 2 ex_blocks \<noteq> [] \<and> (2::real) \<noteq> 0 \<and>
   selection_rects ex_blocks 2 0 3 =
     Inr [\<lparr>x0 = 3 / 2, y0 = 0, x1 = 13 / 2, y1 = 5\<rparr>,
          \<lparr>x0 = 3 / 2, y0 = 6, x1 = 7, y1 = 11\<rparr>]"
proof -
  have a: "take 2 ex_blocks \<noteq> []" and b: "drop 2 ex_blocks \<noteq> []"
    by (simp_all add: ex_blocks_def)
  have c: "\<forall>b \<in> set (take 2 ex_blocks).
             box_y (block_rect b) = 0 \<and> box_height (block_rect b) = 10"
    by (simp add: ex_blocks_def)
  have d: "\<forall>b \<in> set (drop 2 ex_blocks).
             box_y (block_rect b) = 12 \<and> box_height (block_rect b) = 10"
    by (simp add: ex_blocks_def)
  have e: "(2::real) \<noteq> 0" by simp
  from two_lines_two_rectangles[OF a b c d e] show ?thesis
    using a b by (simp add: ex_blocks_def numeral_3_eq_3)
qed


section \<open>The depth cap of the history\<close>

lemma push_capped_length:
  "int (length s) \<le> cap \<Longrightarrow> int (length (push_capped cap s c)) \<le> cap"
  by (auto simp: push_capped_def Let_def)

lemma push_capped_drop:
  "int (length s) \<le> cap \<Longrightarrow>
   push_capped cap s c = drop (length (s @ [c]) - nat cap) (s @ [c])"
  by (cases s) (auto simp: push_capped_def Let_def Suc_diff_le nat_le_iff)

lemma execute_fst: "fst (execute c hp p) = True"
  by (simp add: execute_def add_loop_eq)

lemma execute_tuple:
  "execute c hp p =
     (True, result_command (execute c hp p), result_heap (execute c hp p),
      result_store (execute c hp p))"
  using execute_fst[of c hp p]
  by (cases "execute c hp p") (simp add: result_tuple)

lemma history_execute_eq:
  "history_execute h c hp p =
     (True,
      h\<lparr>undo_stack := push_capped (max_stack_size h) (undo_stack h) (result_command (execute c hp p)),
        redo_stack := []\<rparr>,
      result_heap (execute c hp p), result_store (execute c hp p))"
  using execute_fst[of c hp p]
  by (cases "execute c hp p") (simp add: history_execute_def result_tuple)

lemma history_undo_cap:
  assumes "within_cap h"
  shows "within_cap (fst (snd (history_undo fz h p))) \<and>
         max_stack_size (fst (snd (history_undo fz h p))) = max_stack_size h"
proof (cases "undo_stack h = []")
  case True
  with assms show ?thesis by (simp add: history_undo_def)
next
  case False
  have bl: "int (length (butlast (undo_stack h))) \<le> max_stack_size h"
    using assms by (auto simp add: within_cap_def)
  obtain res c' p' where u: "undo fz (last (undo_stack h)) p = (res, c', p')"
    by (cases "undo fz (last (undo_stack h)) p")
  show ?thesis
  proof (cases res)
    case (Inl e)
    with False u bl assms show ?thesis
      by (simp add: history_undo_def Let_def within_cap_def)
  next
    case (Inr b)
    with False u bl assms show ?thesis
      by (cases b) (simp_all add: history_undo_def Let_def within_cap_def push_capped_length)
  qed
qed

lemma history_redo_cap:
  assumes "within_cap h"
  shows "within_cap (fst (snd (history_redo h hp p))) \<and>
         max_stack_size (fst (snd (history_redo h hp p))) = max_stack_size h"
proof (cases "redo_stack h = []")
  case True
  with assms show ?thesis by (simp add: history_redo_def)
next
  case False
  have bl: "int (length (butlast (redo_stack h))) \<le> max_stack_size h"
    using assms by (auto simp add: within_cap_def)
  show ?thesis
    using False bl assms execute_tuple[of "last (redo_stack h)" hp p]
    by (simp add: history_redo_def Let_def within_cap_def push_capped_length split: prod.splits)
qed

lemma history_execute_cap:
  assumes "within_cap h"
  shows "within_cap (fst (snd (history_execute h c hp p))) \<and>
         max_stack_size (fst (snd (history_execute h c hp p))) = max_stack_size h"
proof -
  have "0 \<le> max_stack_size h" using assms by (simp add: within_cap_def)
  with assms show ?thesis
    by (simp add: history_execute_eq within_cap_def push_capped_length)
qed

lemma call_cap:
  "within_cap h \<Longrightarrow>
   within_cap (fst (call fz c (h, hp, p))) \<and>
   max_stack_size (fst (call fz c (h, hp, p))) = max_stack_size h"
proof (cases c)
  case (Execute x1)
  assume "within_cap h"
  from history_execute_cap[OF this, of x1 hp p] Execute show ?thesis
    by (auto split: prod.splits)
next
  case Undo
  assume "within_cap h"
  from history_undo_cap[OF this, of fz p] Undo show ?thesis
    by (auto split: prod.splits)
next
  case Redo
  assume "within_cap h"
  from history_redo_cap[OF this, of hp p] Redo show ?thesis
    by (auto split: prod.splits)
qed

lemma run_calls_cap:
  "within_cap h \<Longrightarrow>
   within_cap (fst (run_calls fz calls (h, hp, p))) \<and>
   max_stack_size (fst (run_calls fz calls (h, hp, p))) = max_stack_size h"
proof (induction calls arbitrary: h hp p)
  case Nil
  then show ?case by (simp add: run_calls_def)
next
  case (Cons c calls)
  obtain h1 hp1 p1 where st: "call fz c (h, hp, p) = (h1, hp1, p1)"
    by (cases "call fz c (h, hp, p)")
  from call_cap[OF Cons.prems, of fz c hp p] st
  have w: "within_cap h1" and m: "max_stack_size h1 = max_stack_size h" by simp_all
  from Cons.IH[OF w, of hp1 p1] m st show ?case
    by (simp add: run_calls_def)
qed


lemma keep_last_step:
  "drop (length (drop (length xs - n) xs @ ys) - n) (drop (length xs - n) xs @ ys) =
   drop (length (xs @ ys) - n) (xs @ ys)"
proof (cases "length xs \<le> n")
  case True
  then show ?thesis by simp
next
  case False
  then have "length (drop (length xs - n) xs) = n" by simp
  then have l: "drop (length (drop (length xs - n) xs @ ys) - n) (drop (length xs - n) xs @ ys)
       = drop (length ys) (drop (length xs - n) xs @ ys)" by simp
  have "length (xs @ ys) - n = length ys + (length xs - n)" using False by simp
  then have "drop (length (xs @ ys) - n) (xs @ ys) = drop (length ys) (drop (length xs - n) (xs @ ys))"
    by (simp only: drop_drop)
  also have "\<dots> = drop (length ys) (drop (length xs - n) xs @ ys)" by simp
  finally show ?thesis using l by simp
qed

lemma execute_all_length: "length (fst (execute_all cs hp p)) = length cs"
  by (induction cs arbitrary: hp p) (simp_all add: split_beta)

lemma run_calls_execute:
  assumes "int (length (undo_stack h)) \<le> max_stack_size h"
  shows "run_calls fz (map Execute cs) (h, hp, p) =
     (h\<lparr>undo_stack :=
          drop (length (undo_stack h @ fst (execute_all cs hp p)) - nat (max_stack_size h))
            (undo_stack h @ fst (execute_all cs hp p)),
        redo_stack := (if cs = [] then redo_stack h else [])\<rparr>,
      snd (execute_all cs hp p))"
  using assms
proof (induction cs arbitrary: h hp p)
  case Nil
  then show ?case by (simp add: run_calls_def)
next
  case (Cons c cs)
  let ?c1 = "result_command (execute c hp p)"
  let ?hp1 = "result_heap (execute c hp p)"
  let ?p1 = "result_store (execute c hp p)"
  let ?h1 = "h\<lparr>undo_stack := push_capped (max_stack_size h) (undo_stack h) ?c1, redo_stack := []\<rparr>"
  let ?cs' = "fst (execute_all cs ?hp1 ?p1)"
  have step: "call fz (Execute c) (h, hp, p) = (?h1, ?hp1, ?p1)"
    by (simp add: history_execute_eq)
  have cap1: "int (length (undo_stack ?h1)) \<le> max_stack_size ?h1"
    using Cons.prems by (simp add: push_capped_length)
  have ea: "execute_all (c # cs) hp p = (?c1 # ?cs', snd (execute_all cs ?hp1 ?p1))"
    using execute_tuple[of c hp p] by (simp split: prod.splits add: result_tuple)
  have u1: "undo_stack ?h1 =
      drop (length (undo_stack h @ [?c1]) - nat (max_stack_size h)) (undo_stack h @ [?c1])"
    using Cons.prems by (simp add: push_capped_drop)
  have "run_calls fz (map Execute (c # cs)) (h, hp, p) =
        run_calls fz (map Execute cs) (?h1, ?hp1, ?p1)"
    using step by (simp add: run_calls_def)
  also have "\<dots> =
     (?h1\<lparr>undo_stack :=
          drop (length (undo_stack ?h1 @ ?cs') - nat (max_stack_size ?h1)) (undo_stack ?h1 @ ?cs'),
        redo_stack := (if cs = [] then redo_stack ?h1 else [])\<rparr>,
      snd (execute_all cs ?hp1 ?p1))"
    by (rule Cons.IH[OF cap1])
  also have "drop (length (undo_stack ?h1 @ ?cs') - nat (max_stack_size ?h1)) (undo_stack ?h1 @ ?cs')
      = drop (length (undo_stack h @ ?c1 # ?cs') - nat (max_stack_size h)) (undo_stack h @ ?c1 # ?cs')"
    using keep_last_step[of "undo_stack h @ [?c1]" "nat (max_stack_size h)" ?cs']
    by (simp only: u1) simp
  finally show ?case by (simp add: ea del: execute_all.simps)
qed


lemma set_py_insert: "set (py_insert i x xs) = insert x (set xs)"
proof -
  have "set (take n xs) \<union> set (drop n xs) = set xs" for n
    using set_append[of "take n xs" "drop n xs"] by simp
  then show ?thesis by (auto simp: py_insert_def Let_def)
qed

lemma restore_loop_keeps: "set anns \<subseteq> set (restore_loop zs anns)"
proof (induction zs arbitrary: anns)
  case Nil
  then show ?case by simp
next
  case (Cons z zs)
  obtain idx a where z: "z = (idx, a)" by (cases z)
  let ?anns' = "(case idx of
          Some i \<Rightarrow> if i \<le> int (length anns) then py_insert i a anns else anns @ [a]
        | None \<Rightarrow> anns @ [a])"
  have "set anns \<subseteq> set ?anns'"
    by (auto simp: set_py_insert split: option.splits)
  also have "\<dots> \<subseteq> set (restore_loop zs ?anns')" by (rule Cons.IH)
  finally show ?case by (simp add: z)
qed

lemma execute_keeps:
  "set (annotations p) \<subseteq> set (annotations (result_store (execute c hp p)))"
  using restore_loop_keeps[of "annotations p"]
  by (auto simp: execute_def add_loop_eq result_tuple)

lemma execute_all_keeps:
  "set (annotations p) \<subseteq> set (annotations (snd (snd (execute_all cs hp p))))"
proof (induction cs arbitrary: hp p)
  case Nil
  then show ?case by simp
next
  case (Cons c cs)
  have "set (annotations p) \<subseteq> set (annotations (result_store (execute c hp p)))"
    by (rule execute_keeps)
  also have "\<dots> \<subseteq> set (annotations (snd (snd (execute_all cs
      (result_heap (execute c hp p)) (result_store (execute c hp p))))))"
    by (rule Cons.IH)
  finally show ?case
    using execute_tuple[of c hp p] by (simp add: split_beta result_heap_def result_store_def)
qed

text \<open>
  C6. Starting from a history whose two stacks are within \<open>max_stack_size\<close>, after any
  sequence of execute, undo and redo calls both stacks are still within it. Executing
  \<open>max_stack_size + 1\<close> commands leaves the undo stack with exactly \<open>max_stack_size\<close>
  entries: everything that was on the stack and the first command executed are dropped,
  the other commands remain in the order of execution (from a new history: all but the
  first). The heap and the store are those of running the commands with no history, and
  every record in the store after the first command is still in the store at the end.
\<close>

theorem stacks_stay_within_cap:
  assumes "int (length (undo_stack h)) \<le> max_stack_size h"
    and "int (length (redo_stack h)) \<le> max_stack_size h"
  shows "int (length (undo_stack (fst (run_calls fz calls (h, hp, p))))) \<le> max_stack_size h \<and>
         int (length (redo_stack (fst (run_calls fz calls (h, hp, p))))) \<le> max_stack_size h \<and>
         max_stack_size (fst (run_calls fz calls (h, hp, p))) = max_stack_size h \<and>
         (length cs = nat (max_stack_size h) + 1 \<longrightarrow>
            int (length (undo_stack (fst (run_calls fz (map Execute cs) (h, hp, p)))))
              = max_stack_size h \<and>
            undo_stack (fst (run_calls fz (map Execute cs) (h, hp, p))) =
              drop (Suc (length (undo_stack h))) (undo_stack h @ fst (execute_all cs hp p)) \<and>
            (undo_stack h = [] \<longrightarrow>
               undo_stack (fst (run_calls fz (map Execute cs) (h, hp, p))) =
                 tl (fst (execute_all cs hp p))) \<and>
            snd (run_calls fz (map Execute cs) (h, hp, p)) = snd (execute_all cs hp p) \<and>
            set (annotations (result_store (execute (hd cs) hp p))) \<subseteq>
              set (annotations (snd (snd (run_calls fz (map Execute cs) (h, hp, p))))))"
proof -
  have w: "within_cap h" using assms by (simp add: within_cap_def)
  from run_calls_cap[OF w, of fz calls hp p]
  have A: "int (length (undo_stack (fst (run_calls fz calls (h, hp, p))))) \<le> max_stack_size h"
    "int (length (redo_stack (fst (run_calls fz calls (h, hp, p))))) \<le> max_stack_size h"
    "max_stack_size (fst (run_calls fz calls (h, hp, p))) = max_stack_size h"
    by (simp_all add: within_cap_def)
  have B: "int (length (undo_stack (fst (run_calls fz (map Execute cs) (h, hp, p)))))
              = max_stack_size h \<and>
            undo_stack (fst (run_calls fz (map Execute cs) (h, hp, p))) =
              drop (Suc (length (undo_stack h))) (undo_stack h @ fst (execute_all cs hp p)) \<and>
            (undo_stack h = [] \<longrightarrow>
               undo_stack (fst (run_calls fz (map Execute cs) (h, hp, p))) =
                 tl (fst (execute_all cs hp p))) \<and>
            snd (run_calls fz (map Execute cs) (h, hp, p)) = snd (execute_all cs hp p) \<and>
            set (annotations (result_store (execute (hd cs) hp p))) \<subseteq>
              set (annotations (snd (snd (run_calls fz (map Execute cs) (h, hp, p)))))"
    if len: "length cs = nat (max_stack_size h) + 1"
  proof -
    have nn: "0 \<le> max_stack_size h" using assms(1) by simp
    have d: "length (undo_stack h @ fst (execute_all cs hp p)) - nat (max_stack_size h)
             = Suc (length (undo_stack h))"
      using len by (simp add: execute_all_length)
    have u: "undo_stack (fst (run_calls fz (map Execute cs) (h, hp, p))) =
              drop (Suc (length (undo_stack h))) (undo_stack h @ fst (execute_all cs hp p))"
      unfolding run_calls_execute[OF assms(1)] d by simp
    have l: "int (length (undo_stack (fst (run_calls fz (map Execute cs) (h, hp, p)))))
              = max_stack_size h"
      using len nn by (simp add: u execute_all_length)
    have t: "undo_stack h = [] \<longrightarrow>
               undo_stack (fst (run_calls fz (map Execute cs) (h, hp, p))) =
                 tl (fst (execute_all cs hp p))"
      by (simp add: u drop_Suc)
    have s: "snd (run_calls fz (map Execute cs) (h, hp, p)) = snd (execute_all cs hp p)"
      using run_calls_execute[OF assms(1), of fz cs hp p] by simp
    obtain c cs' where cs: "cs = c # cs'" using len by (cases cs) auto
    have "set (annotations (result_store (execute c hp p))) \<subseteq>
          set (annotations (snd (snd (execute_all cs'
             (result_heap (execute c hp p)) (result_store (execute c hp p))))))"
      by (rule execute_all_keeps)
    then have k: "set (annotations (result_store (execute (hd cs) hp p))) \<subseteq>
              set (annotations (snd (snd (execute_all cs hp p))))"
      using execute_tuple[of c hp p]
      by (simp add: cs split_beta result_heap_def result_store_def)
    show ?thesis using u l t s k by simp
  qed
  show ?thesis using A B by blast
qed


theorem stacks_stay_within_cap_witness:
  "int (length (undo_stack (CommandHistory_init 1))) \<le> max_stack_size (CommandHistory_init 1) \<and>
   int (length (redo_stack (CommandHistory_init 1))) \<le> max_stack_size (CommandHistory_init 1) \<and>
   length [ex_command, ex_second] = nat (max_stack_size (CommandHistory_init 1)) + 1 \<and>
   undo_stack (fst (run_calls no_raise (map Execute [ex_command, ex_second])
       (CommandHistory_init 1, ex_two_rects, ex_store))) =
     [\<lparr>rects = [1], page_num = 1, color = InvalidColor,
       annotation_indices = [Some 1], removed_annotations = []\<rparr>] \<and>
   annotations (snd (snd (run_calls no_raise (map Execute [ex_command, ex_second])
       (CommandHistory_init 1, ex_two_rects, ex_store)))) =
     [new_annotation 0 (RGBA 255 255 0 100) 0, new_annotation 1 InvalidColor 1] \<and>
   int (length (undo_stack (fst (run_calls no_raise
       [Execute ex_command, Undo, Redo, Execute ex_second]
       (CommandHistory_init 1, ex_two_rects, ex_store))))) \<le> 1"
proof -
  have a: "int (length (undo_stack (CommandHistory_init 1))) \<le> max_stack_size (CommandHistory_init 1)"
    and b: "int (length (redo_stack (CommandHistory_init 1))) \<le> max_stack_size (CommandHistory_init 1)"
    by (simp_all add: CommandHistory_init_def)
  have c: "length [ex_command, ex_second] = nat (max_stack_size (CommandHistory_init 1)) + 1"
    by (simp add: CommandHistory_init_def)
  let ?hp1 = "ex_two_rects\<lparr>cells := (cells ex_two_rects)(0 := \<lparr>x0 = 9, y0 = 20, x1 = 31, y1 = 40\<rparr>)\<rparr>"
  let ?p1 = "\<lparr>doc = None, annotations = [new_annotation 0 (RGBA 255 255 0 100) 0]\<rparr> :: unit PDFDocument"
  have e1: "execute ex_command ex_two_rects ex_store =
     (True,
      \<lparr>rects = [0], page_num = 0, color = RGBA 255 255 0 100,
       annotation_indices = [Some 0], removed_annotations = []\<rparr>, ?hp1, ?p1)"
    by (simp add: ex_command_def ex_two_rects_def ex_store_def execute_def add_loop_eq
        HighlightCommand_init_def pad_all_def pad_def QColor_init_def channel_ok_def)
  have e2: "execute ex_second ?hp1 ?p1 =
     (True,
      \<lparr>rects = [1], page_num = 1, color = InvalidColor,
       annotation_indices = [Some 1], removed_annotations = []\<rparr>,
      ?hp1\<lparr>cells := (cells ?hp1)(1 := \<lparr>x0 = 9, y0 = 50, x1 = 31, y1 = 70\<rparr>)\<rparr>,
      \<lparr>doc = None, annotations =
         [new_annotation 0 (RGBA 255 255 0 100) 0, new_annotation 1 InvalidColor 1]\<rparr>)"
    by (simp add: ex_second_def ex_two_rects_def execute_def add_loop_eq
        HighlightCommand_init_def pad_all_def pad_def)
  note inst = stacks_stay_within_cap[OF a b, of no_raise
      "[Execute ex_command, Undo, Redo, Execute ex_second]" ex_two_rects ex_store
      "[ex_command, ex_second]"]
  from inst c have
    u: "undo_stack (fst (run_calls no_raise (map Execute [ex_command, ex_second])
          (CommandHistory_init 1, ex_two_rects, ex_store))) =
        tl (fst (execute_all [ex_command, ex_second] ex_two_rects ex_store))"
    and s: "snd (run_calls no_raise (map Execute [ex_command, ex_second])
          (CommandHistory_init 1, ex_two_rects, ex_store)) =
        snd (execute_all [ex_command, ex_second] ex_two_rects ex_store)"
    by (simp_all add: CommandHistory_init_def drop_Suc del: execute_all.simps)
  from inst have
    l: "int (length (undo_stack (fst (run_calls no_raise
          [Execute ex_command, Undo, Redo, Execute ex_second]
          (CommandHistory_init 1, ex_two_rects, ex_store))))) \<le> 1"
    by (simp add: CommandHistory_init_def)
  have u': "undo_stack (fst (run_calls no_raise (map Execute [ex_command, ex_second])
       (CommandHistory_init 1, ex_two_rects, ex_store))) =
     [\<lparr>rects = [1], page_num = 1, color = InvalidColor,
       annotation_indices = [Some 1], removed_annotations = []\<rparr>]"
    unfolding u by (simp add: e1 e2)
  have s': "annotations (snd (snd (run_calls no_raise (map Execute [ex_command, ex_second])
       (CommandHistory_init 1, ex_two_rects, ex_store)))) =
     [new_annotation 0 (RGBA 255 255 0 100) 0, new_annotation 1 InvalidColor 1]"
    unfolding s by (simp add: e1 e2)
  show ?thesis by (intro conjI a b c u' s' l)
qed


section \<open>Serialising and loading the history\<close>

text \<open>Loading allocates new rectangle objects; an object allocated for one command is not
  touched by the allocations for the commands loaded after it.\<close>

lemma heap_extends_refl: "heap_extends hp hp"
  by (simp add: heap_extends_def)

lemma heap_extends_trans:
  "heap_extends a b \<Longrightarrow> heap_extends b c \<Longrightarrow> heap_extends a c"
  by (auto simp: heap_extends_def)

lemma from_dict_to_dict_any:
  "from_dict (to_dict c hs) hp =
     (\<lparr>rects = [next_ref hp..<next_ref hp + length (rects c)],
       page_num = page_num c,
       color = QColor_init (red (color c)) (green (color c)) (blue (color c)) (alpha (color c)),
       annotation_indices = annotation_indices c,
       removed_annotations = []\<rparr>,
      snd (new_Rects (map (cells hs) (rects c)) hp))"
  using new_Rects_eq[of "map (cells hs) (rects c)" hp]
  by (simp add: from_dict_def to_dict_def HighlightCommand_init_def split_beta)

lemma from_dict_stable:
  "heap_extends hp (snd (from_dict (to_dict c hs) hp)) \<and>
   (\<forall>hp''. heap_extends (snd (from_dict (to_dict c hs) hp)) hp'' \<longrightarrow>
      to_dict (fst (from_dict (to_dict c hs) hp)) hp'' = to_dict c hs)"
proof -
  let ?vs = "map (cells hs) (rects c)"
  let ?hp' = "snd (new_Rects ?vs hp)"
  let ?rs = "[next_ref hp..<next_ref hp + length (rects c)]"
  note nr = new_Rects_eq[of ?vs hp]
  have ext: "heap_extends hp ?hp'" using nr by (simp add: heap_extends_def)
  have "to_dict (fst (from_dict (to_dict c hs) hp)) hp'' = to_dict c hs"
    if "heap_extends ?hp' hp''" for hp''
  proof -
    have "\<forall>r \<in> set ?rs. cells hp'' r = cells ?hp' r"
      using that nr by (simp add: heap_extends_def)
    then have "map (cells hp'') ?rs = map (cells ?hp') ?rs" by simp
    also have "\<dots> = ?vs" using nr by simp
    finally show ?thesis
      unfolding from_dict_to_dict_any
      using QColor_init_channels_same[of "color c"]
      by (simp add: to_dict_def)
  qed
  with ext show ?thesis by (simp add: from_dict_to_dict_any)
qed

lemma load_stack_append:
  "load_stack ds stack hp = (stack @ fst (load_stack ds [] hp), snd (load_stack ds [] hp))"
proof (induction ds arbitrary: stack hp)
  case Nil
  then show ?case by simp
next
  case (Cons d ds)
  show ?case
  proof (cases "key_type d = ''highlight''")
    case True
    obtain c hp1 where fd: "from_dict d hp = (c, hp1)" by (cases "from_dict d hp")
    show ?thesis
      using True fd Cons.IH[of "stack @ [c]" hp1] Cons.IH[of "[c]" hp1] by simp
  next
    case False
    then show ?thesis using Cons.IH[of stack hp] by simp
  qed
qed

lemma load_stack_stable:
  "heap_extends hp (snd (load_stack (map (\<lambda>c. to_dict c hs) cs) [] hp)) \<and>
   (\<forall>hp''. heap_extends (snd (load_stack (map (\<lambda>c. to_dict c hs) cs) [] hp)) hp'' \<longrightarrow>
      map (\<lambda>c. to_dict c hp'') (fst (load_stack (map (\<lambda>c. to_dict c hs) cs) [] hp)) =
      map (\<lambda>c. to_dict c hs) cs)"
proof (induction cs arbitrary: hp)
  case Nil
  then show ?case by (simp add: heap_extends_refl)
next
  case (Cons c cs)
  let ?d = "to_dict c hs"
  let ?ds = "map (\<lambda>c. to_dict c hs) cs"
  let ?c1 = "fst (from_dict ?d hp)"
  let ?hp1 = "snd (from_dict ?d hp)"
  let ?hp2 = "snd (load_stack ?ds [] ?hp1)"
  have ty: "key_type ?d = ''highlight''" by (simp add: to_dict_def)
  have ls: "load_stack (map (\<lambda>c. to_dict c hs) (c # cs)) [] hp =
            (?c1 # fst (load_stack ?ds [] ?hp1), ?hp2)"
    using ty load_stack_append[of ?ds "[?c1]" ?hp1] by (simp add: split_beta)
  note fs = from_dict_stable[of hp c hs]
  note ih = Cons.IH[of ?hp1]
  have e12: "heap_extends ?hp1 ?hp2" using ih by simp
  have e02: "heap_extends hp ?hp2" using fs e12 heap_extends_trans by blast
  have "map (\<lambda>c. to_dict c hp'') (?c1 # fst (load_stack ?ds [] ?hp1)) =
        map (\<lambda>c. to_dict c hs) (c # cs)" if ext: "heap_extends ?hp2 hp''" for hp''
  proof -
    have "heap_extends ?hp1 hp''" using e12 ext heap_extends_trans by blast
    then have "to_dict ?c1 hp'' = ?d" using fs by blast
    moreover have "map (\<lambda>c. to_dict c hp'') (fst (load_stack ?ds [] ?hp1)) = ?ds"
      using ih ext by blast
    ultimately show ?thesis by simp
  qed
  with e02 show ?case unfolding ls by simp
qed

text \<open>
  C7. Serialising a history with \<^verbatim>\<open>to_dict\<close>, loading the dictionary into any history with
  \<^verbatim>\<open>load_from_dict\<close> (which clears it first) and serialising the loaded history gives back
  the first dictionary: the same entries in the same order with the same values, hence
  the same bytes under a deterministic encoder such as \<^verbatim>\<open>json.dumps\<close>.
\<close>

theorem serialise_load_serialise:
  "history_to_dict (fst (load_from_dict h0 (history_to_dict h hp) hp0))
     (snd (load_from_dict h0 (history_to_dict h hp) hp0)) = history_to_dict h hp"
proof -
  let ?us = "map (\<lambda>cmd. to_dict cmd hp) (undo_stack h)"
  let ?rs = "map (\<lambda>cmd. to_dict cmd hp) (redo_stack h)"
  let ?hp1 = "snd (load_stack ?us [] hp0)"
  let ?hp2 = "snd (load_stack ?rs [] ?hp1)"
  have ld: "load_from_dict h0 (history_to_dict h hp) hp0 =
     (h0\<lparr>undo_stack := fst (load_stack ?us [] hp0),
         redo_stack := fst (load_stack ?rs [] ?hp1),
         max_stack_size := max_stack_size h\<rparr>, ?hp2)"
    by (simp add: load_from_dict_def history_to_dict_def clear_def Let_def split_beta)
  note s1 = load_stack_stable[of hp0 hp "undo_stack h"]
  note s2 = load_stack_stable[of ?hp1 hp "redo_stack h"]
  have "heap_extends ?hp1 ?hp2" using s2 by simp
  then have u: "map (\<lambda>c. to_dict c ?hp2) (fst (load_stack ?us [] hp0)) = ?us"
    using s1 by blast
  have r: "map (\<lambda>c. to_dict c ?hp2) (fst (load_stack ?rs [] ?hp1)) = ?rs"
    using s2 heap_extends_refl by blast
  show ?thesis unfolding ld using u r by (simp add: history_to_dict_def)
qed


end
